theory Spec2Isabelle
  imports Main
begin

section \<open>Python string primitives used by busSweial.py\<close>

text \<open>
  A \<^typ>\<open>char\<close> stands for one character of a Python \<open>str\<close> with code point below 256;
  \<^typ>\<open>string\<close> is \<^typ>\<open>char list\<close>. Python integers are unbounded, so they are
  \<^typ>\<open>int\<close>. CPython refuses to convert between text and an integer of more than
  \<open>max_str_digits\<close> decimal digits, 4300 unless it is reconfigured, which the program
  does not do: \<open>int\<close>, \<open>str\<close> and the formatting of an integer raise \<open>ValueError\<close> there.
\<close>

datatype error = ValueError | UnicodeEncodeError

definition max_str_digits :: nat where
  "max_str_digits = 4300"

definition code :: "char \<Rightarrow> nat" where
  "code c = of_char c"

text \<open>\<open>str.isspace\<close> on one character: the characters removed by \<open>str.strip()\<close>.\<close>

definition isspace :: "char \<Rightarrow> bool" where
  "isspace c = (code c \<in> {9, 10, 11, 12, 13, 28, 29, 30, 31, 32, 133, 160})"

definition strip :: "string \<Rightarrow> string" where
  "strip s = rev (dropWhile isspace (rev (dropWhile isspace s)))"

text \<open>
  \<open>str.upper()\<close>, which the program uses only in the test \<open>upper().startswith('C#')\<close>:
  the letters a-z are raised. No other character has an upper case that starts with
  \<open>C\<close> or \<open>#\<close>, so leaving the rest as it is does not change that test.
\<close>

definition upper_char :: "char \<Rightarrow> char" where
  "upper_char c = (if 97 \<le> code c \<and> code c \<le> 122 then char_of (code c - 32) else c)"

definition upper :: "string \<Rightarrow> string" where
  "upper s = map upper_char s"

definition startswith :: "string \<Rightarrow> string \<Rightarrow> bool" where
  "startswith s p = (take (length p) s = p)"

definition endswith :: "string \<Rightarrow> string \<Rightarrow> bool" where
  "endswith s p = (length p \<le> length s \<and> drop (length s - length p) s = p)"

text \<open>\<open>s.split(sep)\<close> for a one-character separator: empty fields are kept, and the
  result is never empty.\<close>

fun split :: "char \<Rightarrow> string \<Rightarrow> string list" where
  "split sep [] = [[]]"
| "split sep (c # cs) =
     (if c = sep then [] # split sep cs
      else (c # hd (split sep cs)) # tl (split sep cs))"

subsection \<open>\<open>int(s)\<close> in base 10\<close>

text \<open>
  \<open>int\<close> skips white space on both sides (a smaller set than \<open>strip\<close>: the separators
  28-31 are not skipped), takes one optional sign, and then wants decimal digits in which
  single underscores may stand between two digits. Anything else raises \<open>ValueError\<close>,
  and so does a text with more than \<open>max_str_digits\<close> digits (leading zeros count,
  underscores do not); both are \<open>None\<close> here, since every caller catches the exception.
\<close>

definition int_space :: "char \<Rightarrow> bool" where
  "int_space c = (code c \<in> {9, 10, 11, 12, 13, 32, 133, 160})"

definition is_digit :: "char \<Rightarrow> bool" where
  "is_digit c = (48 \<le> code c \<and> code c \<le> 57)"

definition digit_val :: "char \<Rightarrow> nat" where
  "digit_val c = code c - 48"

fun scan_digits :: "nat \<Rightarrow> string \<Rightarrow> nat option" where
  "scan_digits acc [] = Some acc"
| "scan_digits acc [c] =
     (if is_digit c then Some (acc * 10 + digit_val c) else None)"
| "scan_digits acc (c # d # ds) =
     (if is_digit c then scan_digits (acc * 10 + digit_val c) (d # ds)
      else if c = CHR ''_'' \<and> is_digit d then scan_digits (acc * 10 + digit_val d) ds
      else None)"

definition unsigned_int :: "string \<Rightarrow> nat option" where
  "unsigned_int s =
     (case s of
        [] \<Rightarrow> None
      | c # cs \<Rightarrow>
          if \<not> is_digit c then None
          else if length (filter is_digit s) > max_str_digits then None
          else scan_digits (digit_val c) cs)"

definition py_int :: "string \<Rightarrow> int option" where
  "py_int s =
     (let t = rev (dropWhile int_space (rev (dropWhile int_space s)))
      in case t of
           [] \<Rightarrow> None
         | c # cs \<Rightarrow>
             if c = CHR ''-'' then map_option (\<lambda>n. - int n) (unsigned_int cs)
             else if c = CHR ''+'' then map_option int (unsigned_int cs)
             else map_option int (unsigned_int t))"

subsection \<open>Formatting an integer: \<open>str(n)\<close> and the format spec \<open>0wd\<close>\<close>

definition digit_char :: "nat \<Rightarrow> char" where
  "digit_char d = char_of (48 + d)"

fun dec :: "nat \<Rightarrow> string" where
  "dec n = (if n < 10 then [digit_char n] else dec (n div 10) @ [digit_char (n mod 10)])"

declare dec.simps [simp del]

text \<open>An integer can be turned into text when it has at most \<open>max_str_digits\<close> digits.\<close>

definition within_limit :: "int \<Rightarrow> bool" where
  "within_limit n = (length (dec (nat \<bar>n\<bar>)) \<le> max_str_digits)"

text \<open>The decimal text of an integer, and \<open>str(n)\<close>, which gives it or raises.\<close>

definition int_text :: "int \<Rightarrow> string" where
  "int_text n = (if n < 0 then CHR ''-'' # dec (nat (- n)) else dec (nat n))"

definition py_str :: "int \<Rightarrow> error + string" where
  "py_str n = (if within_limit n then Inr (int_text n) else Inl ValueError)"

definition zero_pad :: "nat \<Rightarrow> string \<Rightarrow> string" where
  "zero_pad w s = replicate (w - length s) CHR ''0'' @ s"

text \<open>
  The zero-padded text of an integer (the sign, when there is one, counts in the width),
  and \<open>format(n, '0wd')\<close>, which gives it or raises.
\<close>

definition format_text :: "nat \<Rightarrow> int \<Rightarrow> string" where
  "format_text w n =
     (if n < 0 then CHR ''-'' # zero_pad (w - 1) (dec (nat (- n)))
      else zero_pad w (dec (nat n)))"

definition format_0d :: "nat \<Rightarrow> int \<Rightarrow> error + string" where
  "format_0d w n = (if within_limit n then Inr (format_text w n) else Inl ValueError)"

section \<open>The controller\<close>

definition PULSE_MIN_US :: int where
  "PULSE_MIN_US = 500"

definition PULSE_MAX_US :: int where
  "PULSE_MAX_US = 2500"

text \<open>
  What the controller does to the outside is recorded in order: a write to the serial
  port, the settle delay (in milliseconds), a read from the port, a printed line.
\<close>

datatype event = Write string | Sleep nat | Read string | Print string

text \<open>
  The state: the module's global \<open>default_time_ms\<close>, the trace of effects so far, and the
  port's input as the chunks that successive polls of \<open>in_waiting\<close> will find (an empty
  chunk or the end of the list is a poll that finds nothing). The port is taken to accept
  every write and to deliver finitely many chunks; a failing or endless device is outside
  the model.
\<close>

record state =
  default_time_ms :: int
  trace :: "event list"
  rx :: "string list"

definition init_state :: "string list \<Rightarrow> state" where
  "init_state chunks = \<lparr>default_time_ms = 1000, trace = [], rx = chunks\<rparr>"

definition emit :: "event \<Rightarrow> state \<Rightarrow> state" where
  "emit e s = s\<lparr>trace := trace s @ [e]\<rparr>"

text \<open>
  Lines 52-58 of \<open>send_servo_move\<close>: the three bounds, then the f-string, whose fields
  are formatted from left to right; a field that cannot be formatted raises.
\<close>

definition move_frame :: "int \<Rightarrow> int \<Rightarrow> int \<Rightarrow> error + string" where
  "move_frame servo_id pulse_us time_ms =
     (let pulse_us = max PULSE_MIN_US (min PULSE_MAX_US pulse_us);
          time_ms = max 1 time_ms;
          servo_id = min 999 servo_id
      in case format_0d 3 servo_id of
           Inl e \<Rightarrow> Inl e
         | Inr iii \<Rightarrow>
             (case format_0d 4 pulse_us of
                Inl e \<Rightarrow> Inl e
              | Inr pppp \<Rightarrow>
                  (case format_0d 4 time_ms of
                     Inl e \<Rightarrow> Inl e
                   | Inr tttt \<Rightarrow> Inr (''#'' @ iii @ ''P'' @ pppp @ ''T'' @ tttt @ ''!''))))"

text \<open>
  \<open>str.encode('ascii')\<close> raises \<open>UnicodeEncodeError\<close> on a character above 127. Nothing in
  the program catches it, nor the \<open>ValueError\<close> of a format, so either ends the call that
  made it.
\<close>

definition encode_ascii :: "string \<Rightarrow> error + string" where
  "encode_ascii s = (if \<forall>c \<in> set s. code c < 128 then Inr s else Inl UnicodeEncodeError)"

text \<open>\<open>bytes.decode('ascii', errors='ignore')\<close>: bytes above 127 are dropped.\<close>

definition decode_ignore :: "string \<Rightarrow> string" where
  "decode_ignore b = filter (\<lambda>c. code c < 128) b"

definition send_servo_move :: "state \<Rightarrow> int \<Rightarrow> int \<Rightarrow> int \<Rightarrow> error + state \<times> string" where
  "send_servo_move s servo_id pulse_us time_ms =
     (case move_frame servo_id pulse_us time_ms of
        Inl e \<Rightarrow> Inl e
      | Inr frame \<Rightarrow>
          (case encode_ascii frame of
             Inl e \<Rightarrow> Inl e
           | Inr bytes \<Rightarrow> Inr (emit (Write bytes) s, frame)))"

text \<open>Lines 70-74 of \<open>send_passthrough\<close>: the check of the wrapper, and the payload
  \<open>command[1:]\<close>. \<open>Inl\<close> carries the message the function returns when the check fails.\<close>

definition passthrough_payload :: "string \<Rightarrow> string + string" where
  "passthrough_payload command =
     (if \<not> startswith (upper command) ''C#'' \<or> \<not> endswith command ''!''
      then Inl ''Invalid C# command (must start with C# and end with !)''
      else Inr (drop 1 command))"

text \<open>The loop \<open>while self.serial.in_waiting > 0\<close>, over the chunks the port will deliver.\<close>

fun read_response :: "string list \<Rightarrow> event list \<Rightarrow> string \<Rightarrow> string list \<times> event list \<times> string" where
  "read_response [] tr response = ([], tr, response)"
| "read_response (chunk # rest) tr response =
     (if length chunk > 0
      then read_response rest (tr @ [Read chunk]) (response @ decode_ignore chunk)
      else (rest, tr, response))"

definition send_passthrough :: "state \<Rightarrow> string \<Rightarrow> error + state \<times> string" where
  "send_passthrough s command =
     (case passthrough_payload command of
        Inl msg \<Rightarrow> Inr (s, msg)
      | Inr payload \<Rightarrow>
          (case encode_ascii payload of
             Inl e \<Rightarrow> Inl e
           | Inr bytes \<Rightarrow>
               (let s1 = emit (Sleep 50) (emit (Write bytes) s);
                    (rx', tr', response) = read_response (rx s1) (trace s1) []
                in Inr (s1\<lparr>trace := tr', rx := rx'\<rparr>,
                        ''C# sent -> '' @ payload
                          @ (if response \<noteq> [] then [CHR 0x0A] @ ''Response: '' @ response
                             else [])))))"

text \<open>\<open>parse_segment\<close>; the global \<open>default_time_ms\<close> it reads is its first argument.\<close>

definition parse_segment :: "int \<Rightarrow> string \<Rightarrow> (int \<times> int \<times> int) option" where
  "parse_segment dflt segment =
     (let parts = split CHR '','' segment
      in if length parts < 2 then None
         else
           (case py_int (parts ! 0) of
              None \<Rightarrow> None
            | Some servo_id \<Rightarrow>
                (case py_int (parts ! 1) of
                   None \<Rightarrow> None
                 | Some pulse \<Rightarrow>
                     (case (if length parts > 2 then py_int (parts ! 2) else Some dflt) of
                        None \<Rightarrow> None
                      | Some time_ms \<Rightarrow>
                          if servo_id < 0 \<or> servo_id > 999 \<or> pulse \<le> 0 \<or> time_ms \<le> 0
                          then None
                          else Some (servo_id, pulse, time_ms)))))"

text \<open>The three branches of \<open>process_command\<close>, each on the stripped, non-empty line.\<close>

definition passthrough_branch :: "state \<Rightarrow> string \<Rightarrow> error + state" where
  "passthrough_branch s line =
     (case send_passthrough s line of
        Inl e \<Rightarrow> Inl e
      | Inr (s', result) \<Rightarrow> Inr (emit (Print result) s'))"

definition ct_branch :: "state \<Rightarrow> string \<Rightarrow> error + state" where
  "ct_branch s line =
     (case py_int (drop 2 line) of
        None \<Rightarrow> Inr (emit (Print ''Invalid time value for ct command.'') s)
      | Some new_time \<Rightarrow>
          if new_time > 0
          then
            (case py_str new_time of
               Inl e \<Rightarrow> Inl e
             | Inr txt \<Rightarrow>
                 Inr (emit (Print (''Default time set to: '' @ txt @ '' ms''))
                       (s\<lparr>default_time_ms := new_time\<rparr>)))
          else Inr (emit (Print ''Invalid time value for ct command.'') s))"

fun process_segments :: "state \<Rightarrow> string list \<Rightarrow> error + state" where
  "process_segments s [] = Inr s"
| "process_segments s (segment # rest) =
     (let segment = strip segment
      in if segment = [] then process_segments s rest
         else
           (case parse_segment (default_time_ms s) segment of
              Some (servo_id, pulse, time_ms) \<Rightarrow>
                (case send_servo_move s servo_id pulse time_ms of
                   Inl e \<Rightarrow> Inl e
                 | Inr (s', frame) \<Rightarrow>
                     process_segments (emit (Print (''Sent -> '' @ frame)) s') rest)
            | None \<Rightarrow>
                process_segments (emit (Print (''Skip invalid segment: '' @ segment)) s) rest))"

definition segments_branch :: "state \<Rightarrow> string \<Rightarrow> error + state" where
  "segments_branch s line = process_segments s (split CHR '';'' line)"

definition process_command :: "state \<Rightarrow> string \<Rightarrow> error + state" where
  "process_command s line =
     (let line = strip line
      in if line = [] then Inr s
         else if startswith (upper line) ''C#'' then passthrough_branch s line
         else if startswith line ''ct'' then ct_branch s line
         else segments_branch s line)"

section \<open>Definitions used to state the properties\<close>

text \<open>The frame of a move when every field can be formatted: the bounded values at
  their widths.\<close>

definition frame_text :: "int \<Rightarrow> int \<Rightarrow> int \<Rightarrow> string" where
  "frame_text servo_id pulse_us time_ms =
     ''#'' @ format_text 3 (min 999 servo_id)
       @ ''P'' @ format_text 4 (max PULSE_MIN_US (min PULSE_MAX_US pulse_us))
       @ ''T'' @ format_text 4 (max 1 time_ms) @ ''!''"

text \<open>
  The outcome of one non-empty trimmed segment, as the specification words it: either a
  move (the frame is written, then reported) or a skip diagnostic naming the segment.
\<close>

definition segment_outcome :: "int \<Rightarrow> string \<Rightarrow> event list" where
  "segment_outcome dflt seg =
     (case parse_segment dflt seg of
        Some (servo_id, pulse, time_ms) \<Rightarrow>
          [Write (frame_text servo_id pulse time_ms),
           Print (''Sent -> '' @ frame_text servo_id pulse time_ms)]
      | None \<Rightarrow> [Print (''Skip invalid segment: '' @ seg)])"

text \<open>A segment can be sent when it is rejected or its time can be formatted.\<close>

definition segment_sendable :: "int \<Rightarrow> string \<Rightarrow> bool" where
  "segment_sendable dflt seg =
     (case parse_segment dflt seg of
        Some (servo_id, pulse, time_ms) \<Rightarrow> within_limit time_ms
      | None \<Rightarrow> True)"

text \<open>The number a string of decimal digits stands for, read from the left.\<close>

definition digits_value :: "nat \<Rightarrow> string \<Rightarrow> nat" where
  "digits_value acc ds = foldl (\<lambda>a c. a * 10 + digit_val c) acc ds"

section \<open>Evaluation on concrete inputs\<close>

text \<open>Rewrite rules that let the simplifier run the definitions on literals.\<close>

lemma digit_char_simps:
  "digit_char 0 = CHR ''0''" "digit_char 1 = CHR ''1''" "digit_char 2 = CHR ''2''"
  "digit_char 3 = CHR ''3''" "digit_char 4 = CHR ''4''" "digit_char 5 = CHR ''5''"
  "digit_char 6 = CHR ''6''" "digit_char 7 = CHR ''7''" "digit_char 8 = CHR ''8''"
  "digit_char 9 = CHR ''9''" "digit_char (Suc 0) = CHR ''1''"
  by (simp_all add: digit_char_def char_of_eq_iff)

lemma replicate_num: "replicate (numeral k) x = x # replicate (pred_numeral k) x"
  by (simp add: numeral_eq_Suc)

lemma dec_num:
  "dec (numeral k) = (if (numeral k :: nat) < 10 then [digit_char (numeral k)]
     else dec (numeral k div 10) @ [digit_char (numeral k mod 10)])"
  "dec 0 = ''0''" "dec 1 = ''1''" "dec (Suc 0) = ''1''"
  by (simp_all add: dec.simps[of "numeral k"] dec.simps[of 0] dec.simps[of 1] dec.simps[of "Suc 0"] digit_char_simps)

lemmas ev =
  move_frame_def format_0d_def format_text_def frame_text_def zero_pad_def dec_num
  digit_char_simps PULSE_MIN_US_def PULSE_MAX_US_def replicate_num code_def isspace_def
  strip_def upper_char_def upper_def startswith_def endswith_def int_space_def is_digit_def
  digit_val_def unsigned_int_def py_int_def py_str_def int_text_def within_limit_def
  max_str_digits_def init_state_def emit_def encode_ascii_def decode_ignore_def
  send_servo_move_def passthrough_payload_def send_passthrough_def parse_segment_def
  passthrough_branch_def ct_branch_def segments_branch_def process_command_def Let_def
  char_of_eq_iff

section \<open>Digits and the limit on them\<close>

lemma code_digit_char: "d < 10 \<Longrightarrow> code (digit_char d) = 48 + d"
  by (simp add: code_def digit_char_def)

lemma dec_digits: "c \<in> set (dec n) \<Longrightarrow> 48 \<le> code c \<and> code c \<le> 57"
proof (induction n rule: dec.induct)
  case (1 n)
  show ?case
  proof (cases "n < 10")
    case True
    with "1.prems" have "c = digit_char n" by (simp add: dec.simps[of n])
    with True show ?thesis by (simp add: code_digit_char)
  next
    case False
    with "1.prems" have "c \<in> set (dec (n div 10)) \<or> c = digit_char (n mod 10)"
      by (auto simp add: dec.simps[of n])
    then show ?thesis
    proof
      assume "c \<in> set (dec (n div 10))"
      with False "1.IH" show ?thesis by simp
    next
      assume "c = digit_char (n mod 10)"
      then show ?thesis by (simp add: code_digit_char)
    qed
  qed
qed

lemma dec_not_Nil: "dec n \<noteq> []"
  by (simp add: dec.simps[of n])

lemma length_dec: "0 < k \<Longrightarrow> n < 10 ^ k \<Longrightarrow> length (dec n) \<le> k"
proof (induction n arbitrary: k rule: dec.induct)
  case (1 n)
  show ?case
  proof (cases "n < 10")
    case True
    with "1.prems" show ?thesis by (simp add: dec.simps[of n])
  next
    case False
    with "1.prems" have k: "1 < k" by (cases "k = 1") auto
    then obtain k' where k': "k = Suc k'" "0 < k'" by (cases k) auto
    with "1.prems" have "n div 10 < 10 ^ k'" by (simp add: less_mult_imp_div_less mult.commute)
    with "1.IH" [of k'] False k' have "length (dec (n div 10)) \<le> k'" by simp
    with False k' show ?thesis by (simp add: dec.simps[of n])
  qed
qed

lemma length_dec_power: "length (dec (10 ^ k)) = Suc k"
proof (induction k)
  case 0
  show ?case by (simp add: dec.simps[of "Suc 0"])
next
  case (Suc k)
  have "\<not> (10::nat) ^ Suc k < 10" by simp
  then have "dec (10 ^ Suc k) = dec (10 ^ Suc k div 10) @ [digit_char (10 ^ Suc k mod 10)]"
    by (subst dec.simps) simp
  with Suc show ?case by simp
qed

lemma within_limit_small: "\<bar>n\<bar> < 10000 \<Longrightarrow> within_limit n"
proof -
  assume "\<bar>n\<bar> < 10000"
  then have "nat \<bar>n\<bar> < 10 ^ 4" by simp
  then have "length (dec (nat \<bar>n\<bar>)) \<le> 4" by (rule length_dec [rotated]) simp
  then show ?thesis by (simp add: within_limit_def max_str_digits_def)
qed

lemma is_digit_val: "is_digit c \<Longrightarrow> digit_val c \<le> 9"
  unfolding is_digit_def digit_val_def by arith

lemma scan_step_bound:
  assumes "is_digit d" and "v < (acc * 10 + digit_val d + 1) * 10 ^ k"
  shows "v < (acc + 1) * 10 ^ Suc k"
proof -
  have "acc * 10 + digit_val d + 1 \<le> (acc + 1) * 10"
    using is_digit_val [OF assms(1)] by simp
  then have "(acc * 10 + digit_val d + 1) * 10 ^ k \<le> ((acc + 1) * 10) * 10 ^ k"
    by (rule mult_le_mono1)
  with assms(2) have "v < ((acc + 1) * 10) * 10 ^ k"
    by (rule less_le_trans)
  then show ?thesis by (simp only: power_Suc mult.assoc)
qed

lemma scan_digits_bound:
  "scan_digits acc s = Some v \<Longrightarrow> v < (acc + 1) * 10 ^ length (filter is_digit s)"
proof (induction acc s arbitrary: v rule: scan_digits.induct)
  case (1 acc)
  then show ?case by simp
next
  case (2 acc c)
  then have c: "is_digit c" and v: "v = acc * 10 + digit_val c"
    by (auto split: if_splits)
  from v have "v < (acc * 10 + digit_val c + 1) * 10 ^ 0" by simp
  with c have "v < (acc + 1) * 10 ^ Suc 0" by (rule scan_step_bound)
  with c show ?case by simp
next
  case (3 acc c d ds)
  show ?case
  proof (cases "is_digit c")
    case True
    define k where "k = length (filter is_digit (d # ds))"
    from True "3.prems" have "scan_digits (acc * 10 + digit_val c) (d # ds) = Some v" by simp
    with "3.IH"(1) True have "v < (acc * 10 + digit_val c + 1) * 10 ^ k"
      unfolding k_def by blast
    with True have "v < (acc + 1) * 10 ^ Suc k" by (rule scan_step_bound)
    moreover from True have "length (filter is_digit (c # d # ds)) = Suc k"
      unfolding k_def by simp
    ultimately show ?thesis by simp
  next
    case False
    define k where "k = length (filter is_digit ds)"
    from False "3.prems" have u: "c = CHR ''_''" and d: "is_digit d"
      and s: "scan_digits (acc * 10 + digit_val d) ds = Some v"
      by (auto split: if_splits)
    with "3.IH"(2) False have "v < (acc * 10 + digit_val d + 1) * 10 ^ k"
      unfolding k_def by blast
    with d have "v < (acc + 1) * 10 ^ Suc k" by (rule scan_step_bound)
    moreover from False d have "length (filter is_digit (c # d # ds)) = Suc k"
      unfolding k_def by simp
    ultimately show ?thesis by simp
  qed
qed

lemma unsigned_int_bound: "unsigned_int s = Some v \<Longrightarrow> v < 10 ^ max_str_digits"
proof -
  assume a: "unsigned_int s = Some v"
  then obtain c cs where s: "s = c # cs" and c: "is_digit c"
    and len: "length (filter is_digit s) \<le> max_str_digits"
    and sc: "scan_digits (digit_val c) cs = Some v"
    by (cases s) (auto simp add: unsigned_int_def split: if_splits)
  from scan_digits_bound [OF sc]
  have "v < (digit_val c + 1) * 10 ^ length (filter is_digit cs)" .
  moreover have "(digit_val c + 1) * 10 ^ length (filter is_digit cs)
      \<le> 10 * 10 ^ length (filter is_digit cs)"
    using is_digit_val [OF c] by (intro mult_le_mono1) simp
  ultimately have "v < 10 * 10 ^ length (filter is_digit cs)"
    by (rule less_le_trans)
  with s c have "v < 10 ^ length (filter is_digit s)" by simp
  also from len have "\<dots> \<le> (10::nat) ^ max_str_digits"
    by (simp add: power_increasing)
  finally show ?thesis .
qed

lemma within_limit_of_nat: "v < 10 ^ max_str_digits \<Longrightarrow> within_limit (int v) \<and> within_limit (- int v)"
proof -
  assume "v < 10 ^ max_str_digits"
  then have "length (dec v) \<le> max_str_digits"
    by (rule length_dec [rotated]) (simp add: max_str_digits_def)
  then show ?thesis by (simp add: within_limit_def)
qed

lemma py_int_within_limit: "py_int s = Some n \<Longrightarrow> within_limit n"
  by (auto simp add: py_int_def Let_def split: list.splits if_splits
      dest!: unsigned_int_bound within_limit_of_nat)

section \<open>When a move is written, and what is written\<close>

lemma zero_pad_digits: "c \<in> set (zero_pad w (dec n)) \<Longrightarrow> 48 \<le> code c \<and> code c \<le> 57"
  by (auto simp add: zero_pad_def code_def dest: dec_digits)

lemma format_text_ascii: "c \<in> set (format_text w n) \<Longrightarrow> code c < 128"
  by (auto simp add: format_text_def code_def[of "CHR ''-''"] dest!: zero_pad_digits split: if_splits)

lemma frame_text_ascii: "c \<in> set (frame_text i p t) \<Longrightarrow> code c < 128"
  by (auto simp add: frame_text_def code_def[of "CHR ''#''"] code_def[of "CHR ''P''"]
      code_def[of "CHR ''T''"] code_def[of "CHR ''!''"] dest: format_text_ascii)

lemma within_limit_pulse: "within_limit (max PULSE_MIN_US (min PULSE_MAX_US p))"
  by (rule within_limit_small) (simp add: PULSE_MIN_US_def PULSE_MAX_US_def)

lemma move_frame_eq:
  "move_frame i p t =
     (if within_limit (min 999 i) \<and> within_limit (max 1 t) then Inr (frame_text i p t)
      else Inl ValueError)"
  by (simp add: move_frame_def format_0d_def frame_text_def Let_def within_limit_pulse)

lemma send_servo_move_eq:
  "send_servo_move s i p t =
     (if within_limit (min 999 i) \<and> within_limit (max 1 t)
      then Inr (emit (Write (frame_text i p t)) s, frame_text i p t)
      else Inl ValueError)"
  by (simp add: send_servo_move_def move_frame_eq encode_ascii_def frame_text_ascii)

text \<open>What \<open>parse_segment\<close> accepts can be sent when the default time can be formatted.\<close>

lemma parse_segment_limits:
  assumes "parse_segment dflt seg = Some (i, p, t)"
  shows "0 \<le> i \<and> i \<le> 999 \<and> 0 < p \<and> 0 < t \<and> (within_limit t \<or> t = dflt)"
  using assms
  by (auto simp add: parse_segment_def Let_def split: option.splits if_splits
      dest: py_int_within_limit)

lemma segment_sendable_default: "within_limit dflt \<Longrightarrow> segment_sendable dflt seg"
  by (auto simp add: segment_sendable_def split: option.splits dest: parse_segment_limits)

lemma send_parsed_segment:
  assumes "parse_segment dflt seg = Some (i, p, t)"
  shows "send_servo_move s i p t =
     (if within_limit t then Inr (emit (Write (frame_text i p t)) s, frame_text i p t)
      else Inl ValueError)"
proof -
  from parse_segment_limits [OF assms] have "\<bar>min 999 i\<bar> < 10000" and "max 1 t = t"
    by auto
  then show ?thesis by (simp add: send_servo_move_eq within_limit_small)
qed

text \<open>The limit in numbers: an integer can be formatted when it is below \<open>10 ^ max_str_digits\<close>
  in absolute value.\<close>

lemma dec_value_bound: "n < 10 ^ length (dec n)"
proof (induction n rule: dec.induct)
  case (1 n)
  show ?case
  proof (cases "n < 10")
    case True
    then show ?thesis by (simp add: dec.simps[of n])
  next
    case False
    with "1.IH" have "n div 10 < 10 ^ length (dec (n div 10))" by simp
    then have "n < 10 ^ length (dec (n div 10)) * 10"
      by (simp add: div_less_iff_less_mult)
    with False show ?thesis by (simp add: dec.simps[of n] mult.commute)
  qed
qed

lemma within_limit_iff: "within_limit n \<longleftrightarrow> \<bar>n\<bar> < 10 ^ max_str_digits"
proof
  assume "within_limit n"
  then have "length (dec (nat \<bar>n\<bar>)) \<le> max_str_digits" by (simp add: within_limit_def)
  then have "(10::nat) ^ length (dec (nat \<bar>n\<bar>)) \<le> 10 ^ max_str_digits"
    by (simp add: power_increasing)
  with dec_value_bound [of "nat \<bar>n\<bar>"] have "nat \<bar>n\<bar> < 10 ^ max_str_digits"
    by (rule less_le_trans)
  then have "int (nat \<bar>n\<bar>) < int (10 ^ max_str_digits)" by (simp only: of_nat_less_iff)
  then show "\<bar>n\<bar> < 10 ^ max_str_digits" by simp
next
  assume "\<bar>n\<bar> < 10 ^ max_str_digits"
  then have "nat \<bar>n\<bar> < 10 ^ max_str_digits" by (simp add: nat_less_iff)
  then have "length (dec (nat \<bar>n\<bar>)) \<le> max_str_digits"
    by (rule length_dec [rotated]) (simp add: max_str_digits_def)
  then show "within_limit n" by (simp add: within_limit_def)
qed

lemma not_within_limit_power: "max_str_digits \<le> k \<Longrightarrow> \<not> within_limit (10 ^ k)"
proof -
  assume "max_str_digits \<le> k"
  then have "(10::int) ^ max_str_digits \<le> 10 ^ k" by (simp add: power_increasing)
  then show ?thesis by (simp add: within_limit_iff)
qed

section \<open>Splitting, prefixes and suffixes\<close>

lemma split_not_Nil: "split sep s \<noteq> []"
  by (induction s) auto

lemma split_append: "split sep (a @ sep # b) = split sep a @ split sep b"
proof (induction a)
  case Nil
  show ?case by simp
next
  case (Cons c cs)
  then show ?case using split_not_Nil [of sep cs] by (cases "split sep cs") auto
qed

lemma code_less_256: "code c < 256"
  by (simp add: code_def)

lemma code_inj: "code c = code d \<longleftrightarrow> c = d"
  by (simp add: code_def)

lemma upper_char_C: "upper_char c = CHR ''C'' \<longleftrightarrow> c = CHR ''C'' \<or> c = CHR ''c''"
proof -
  have e1: "c = CHR ''C'' \<longleftrightarrow> code c = 67" 
    using code_inj [of c "CHR ''C''"] by (simp add: code_def)
  have e2: "c = CHR ''c'' \<longleftrightarrow> code c = 99" 
    using code_inj [of c "CHR ''c''"] by (simp add: code_def)
  show ?thesis
  proof (cases "97 \<le> code c \<and> code c \<le> 122")
    case True
    then have "code c - 32 < 256"
      by arith
    then have "(code c - 32) mod 256 = code c - 32"
      by (rule mod_less)
    with True have "upper_char c = CHR ''C'' \<longleftrightarrow> code c - 32 = 67"
      by (simp add: upper_char_def char_of_eq_iff take_bit_eq_mod)
    with True show ?thesis using e1 e2 by auto
  next
    case False
    then show ?thesis using e1 e2 by (auto simp add: upper_char_def)
  qed
qed

lemma upper_char_hash: "upper_char c = CHR ''#'' \<longleftrightarrow> c = CHR ''#''"
proof -
  have e1: "c = CHR ''#'' \<longleftrightarrow> code c = 35" 
    using code_inj [of c "CHR ''#''"] by (simp add: code_def)
  show ?thesis
  proof (cases "97 \<le> code c \<and> code c \<le> 122")
    case True
    then have "code c - 32 < 256"
      by arith
    then have "(code c - 32) mod 256 = code c - 32"
      by (rule mod_less)
    with True have "upper_char c = CHR ''#'' \<longleftrightarrow> code c - 32 = 35"
      by (simp add: upper_char_def char_of_eq_iff take_bit_eq_mod)
    with True show ?thesis using e1 by auto
  next
    case False
    then show ?thesis using e1 by (auto simp add: upper_char_def)
  qed
qed

lemma startswith_upper_C_hash:
  "startswith (upper l) ''C#'' \<longleftrightarrow> take 2 l = ''C#'' \<or> take 2 l = ''c#''"
proof (cases l)
  case Nil
  then show ?thesis by (simp add: startswith_def upper_def)
next
  case (Cons a l')
  show ?thesis
  proof (cases l')
    case Nil
    with Cons show ?thesis by (simp add: startswith_def upper_def)
  next
    case (Cons b l'')
    with \<open>l = a # l'\<close> show ?thesis
      by (auto simp add: startswith_def upper_def upper_char_C upper_char_hash)
  qed
qed

lemma endswith_bang: "endswith s ''!'' \<longleftrightarrow> s \<noteq> [] \<and> last s = CHR ''!''"
proof (cases s rule: rev_cases)
  case Nil
  then show ?thesis by (simp add: endswith_def)
next
  case (snoc ys y)
  then show ?thesis by (simp add: endswith_def)
qed

lemma startswith_ct: "startswith l ''ct'' \<longleftrightarrow> take 2 l = ''ct''"
  by (simp add: startswith_def numeral_2_eq_2)

section \<open>The segment loop\<close>

lemma process_segments_trace:
  "process_segments s segs =
     (if list_all (segment_sendable (default_time_ms s))
           (filter (\<lambda>seg. seg \<noteq> []) (map strip segs))
      then Inr (s\<lparr>trace := trace s @ concat (map (segment_outcome (default_time_ms s))
             (filter (\<lambda>seg. seg \<noteq> []) (map strip segs)))\<rparr>)
      else Inl ValueError)"
proof (induction segs arbitrary: s)
  case Nil
  show ?case by simp
next
  case (Cons seg segs)
  show ?case
  proof (cases "strip seg = []")
    case True
    then show ?thesis by (simp add: Cons.IH)
  next
    case False
    show ?thesis
    proof (cases "parse_segment (default_time_ms s) (strip seg)")
      case None
      then have so: "segment_outcome (default_time_ms s) (strip seg) =
          [Print (''Skip invalid segment: '' @ strip seg)]"
        and ss: "segment_sendable (default_time_ms s) (strip seg)"
        by (simp_all add: segment_outcome_def segment_sendable_def)
      from False None show ?thesis
        by (simp add: Cons.IH so ss emit_def)
    next
      case (Some m)
      obtain i p t where m: "m = (i, p, t)" by (cases m) auto
      from Some m have parsed: "parse_segment (default_time_ms s) (strip seg) = Some (i, p, t)"
        by simp
      from parsed have so: "segment_outcome (default_time_ms s) (strip seg) =
          [Write (frame_text i p t), Print (''Sent -> '' @ frame_text i p t)]"
        and ss: "segment_sendable (default_time_ms s) (strip seg) = within_limit t"
        by (simp_all add: segment_outcome_def segment_sendable_def)
      show ?thesis
      proof (cases "within_limit t")
        case True
        with False parsed show ?thesis
          by (simp add: Cons.IH so ss emit_def send_parsed_segment [OF parsed])
      next
        case no: False
        with False parsed show ?thesis
          by (simp add: ss send_parsed_segment [OF parsed])
      qed
    qed
  qed
qed

lemma segments_branch_Nil: "segments_branch s [] = Inr s"
  by (simp add: segments_branch_def strip_def)

section \<open>The passthrough path and the set-default path\<close>

lemma read_response_trace:
  "\<exists>ys. fst (snd (read_response chunks tr resp)) = tr @ ys"
proof (induction chunks arbitrary: tr resp)
  case Nil
  show ?case by simp
next
  case (Cons chunk rest)
  show ?case
  proof (cases "length chunk > 0")
    case True
    from Cons.IH [of "tr @ [Read chunk]" "resp @ decode_ignore chunk"]
    obtain ys where "fst (snd (read_response rest (tr @ [Read chunk]) (resp @ decode_ignore chunk)))
        = (tr @ [Read chunk]) @ ys" by blast
    with True show ?thesis by simp
  next
    case False
    then show ?thesis by simp
  qed
qed

lemma passthrough_payload_eq:
  "passthrough_payload command =
     (if (take 2 command = ''C#'' \<or> take 2 command = ''c#'')
         \<and> command \<noteq> [] \<and> last command = CHR ''!''
      then Inr (tl command)
      else Inl ''Invalid C# command (must start with C# and end with !)'')"
  by (simp add: passthrough_payload_def startswith_upper_C_hash endswith_bang drop_Suc)

lemma passthrough_payload_shape:
  assumes "passthrough_payload command = Inr payload"
  shows "(command = CHR ''C'' # payload \<or> command = CHR ''c'' # payload)
    \<and> take 1 payload = ''#'' \<and> last payload = CHR ''!''"
proof -
  from assms have c: "take 2 command = ''C#'' \<or> take 2 command = ''c#''"
    and l: "last command = CHR ''!''" and p: "payload = tl command"
    by (simp_all add: passthrough_payload_eq split: if_splits)
  from c obtain a r where cmd: "command = a # CHR ''#'' # r" and a: "a = CHR ''C'' \<or> a = CHR ''c''"
    by (cases command; cases "tl command") (auto simp add: numeral_2_eq_2)
  from cmd p have pl: "payload = CHR ''#'' # r" by simp
  from l cmd have "last (CHR ''#'' # r) = CHR ''!''" by simp
  with cmd a pl show ?thesis by simp
qed

lemma send_passthrough_writes:
  assumes "passthrough_payload command = Inr payload"
    and "\<forall>c \<in> set payload. code c < 128"
  shows "\<exists>s' r ys. send_passthrough s command = Inr (s', r)
     \<and> trace s' = trace s @ [Write payload, Sleep 50] @ ys"
proof -
  obtain rx' tr' resp where rr:
    "read_response (rx s) (trace s @ [Write payload, Sleep 50]) [] = (rx', tr', resp)"
    by (cases "read_response (rx s) (trace s @ [Write payload, Sleep 50]) []") auto
  from read_response_trace [of "rx s" "trace s @ [Write payload, Sleep 50]" "[]"] rr
  obtain ys where "tr' = (trace s @ [Write payload, Sleep 50]) @ ys" by auto
  with assms rr show ?thesis
    by (simp add: send_passthrough_def encode_ascii_def emit_def Let_def)
qed

lemma process_command_ct:
  assumes "take 2 (strip line) = ''ct''"
  shows "process_command s line = ct_branch s (strip line)"
proof -
  from assms have ne: "strip line \<noteq> []" by auto
  from assms have "\<not> (take 2 (strip line) = ''C#'' \<or> take 2 (strip line) = ''c#'')" by simp
  then have "\<not> startswith (upper (strip line)) ''C#''"
    by (simp add: startswith_upper_C_hash)
  moreover from assms have "startswith (strip line) ''ct''"
    by (simp add: startswith_ct)
  ultimately show ?thesis using ne by (simp add: process_command_def Let_def)
qed

lemma ct_branch_eq:
  "ct_branch s line =
     (case py_int (drop 2 line) of
        Some v \<Rightarrow>
          if 0 < v
          then Inr (s\<lparr>default_time_ms := v,
                     trace := trace s @ [Print (''Default time set to: '' @ int_text v @ '' ms'')]\<rparr>)
          else Inr (s\<lparr>trace := trace s @ [Print ''Invalid time value for ct command.'']\<rparr>)
      | None \<Rightarrow> Inr (s\<lparr>trace := trace s @ [Print ''Invalid time value for ct command.'']\<rparr>))"
  by (auto simp add: ct_branch_def py_str_def emit_def split: option.splits
      dest: py_int_within_limit)

section \<open>The default time can always be formatted\<close>

lemma init_state_within_limit: "within_limit (default_time_ms (init_state chunks))"
  by (simp add: init_state_def within_limit_small)

lemma send_passthrough_default:
  "send_passthrough s command = Inr (s', r) \<Longrightarrow> default_time_ms s' = default_time_ms s"
  by (auto simp add: send_passthrough_def emit_def Let_def split: sum.splits prod.splits)

lemma process_command_within_limit:
  assumes "within_limit (default_time_ms s)" and "process_command s line = Inr s'"
  shows "within_limit (default_time_ms s')"
proof -
  let ?l = "strip line"
  consider (empty) "?l = []"
    | (pass) "?l \<noteq> []" "startswith (upper ?l) ''C#''"
    | (ct) "?l \<noteq> []" "\<not> startswith (upper ?l) ''C#''" "startswith ?l ''ct''"
    | (segs) "?l \<noteq> []" "\<not> startswith (upper ?l) ''C#''" "\<not> startswith ?l ''ct''"
    by blast
  then show ?thesis
  proof cases
    case empty
    with assms show ?thesis by (simp add: process_command_def Let_def)
  next
    case pass
    with assms(2) have "passthrough_branch s ?l = Inr s'"
      by (simp add: process_command_def Let_def)
    then obtain s1 r where "send_passthrough s ?l = Inr (s1, r)" and "s' = emit (Print r) s1"
      by (auto simp add: passthrough_branch_def split: sum.splits prod.splits)
    with assms(1) show ?thesis
      by (simp add: emit_def send_passthrough_default)
  next
    case ct
    with assms(2) have "ct_branch s ?l = Inr s'"
      by (simp add: process_command_def Let_def)
    with assms(1) show ?thesis
      by (auto simp add: ct_branch_eq split: option.splits if_splits dest: py_int_within_limit)
  next
    case segs
    with assms(2) have "process_segments s (split CHR '';'' ?l) = Inr s'"
      by (simp add: process_command_def Let_def segments_branch_def)
    with assms(1) show ?thesis
      by (auto simp add: process_segments_trace split: if_splits)
  qed
qed

text \<open>In such a state no line makes a format fail.\<close>

lemma process_command_no_ValueError:
  assumes "within_limit (default_time_ms s)"
  shows "process_command s line \<noteq> Inl ValueError"
proof -
  have seg: "segments_branch s l \<noteq> Inl ValueError" for l
    using assms
    by (simp add: segments_branch_def process_segments_trace list_all_iff
        segment_sendable_default)
  have ct: "ct_branch s l \<noteq> Inl ValueError" for l
    by (simp add: ct_branch_eq split: option.splits)
  have pass: "passthrough_branch s l \<noteq> Inl ValueError" for l
    by (auto simp add: passthrough_branch_def send_passthrough_def encode_ascii_def Let_def
        split: sum.splits prod.splits if_splits)
  show ?thesis
    using seg ct pass by (simp add: process_command_def Let_def)
qed

section \<open>Reading a formatted number back\<close>

lemma scan_digits_all_digits:
  "\<forall>c \<in> set ds. is_digit c \<Longrightarrow> scan_digits acc ds = Some (digits_value acc ds)"
  by (induction acc ds rule: scan_digits.induct) (simp_all add: digits_value_def)

lemma digit_val_digit_char: "d < 10 \<Longrightarrow> digit_val (digit_char d) = d"
  by (simp add: digit_val_def code_digit_char)

lemma digits_value_dec: "digits_value 0 (dec n) = n"
proof (induction n rule: dec.induct)
  case (1 n)
  show ?case
  proof (cases "n < 10")
    case True
    then show ?thesis by (simp add: dec.simps[of n] digits_value_def digit_val_digit_char)
  next
    case False
    with "1.IH" have "digits_value 0 (dec (n div 10)) = n div 10" by simp
    with False show ?thesis
      by (simp add: dec.simps[of n] digits_value_def digit_val_digit_char)
  qed
qed

lemma digits_value_zeros: "digits_value 0 (replicate k CHR ''0'' @ ds) = digits_value 0 ds"
  by (induction k) (simp_all add: digits_value_def digit_val_def code_def)

lemma digits_value_zero_pad: "digits_value 0 (zero_pad w (dec n)) = n"
  by (simp add: zero_pad_def digits_value_zeros digits_value_dec)

lemma is_digit_not_space: "is_digit c \<Longrightarrow> \<not> int_space c"
  by (auto simp add: is_digit_def int_space_def)

lemma is_digit_not_sign: "is_digit c \<Longrightarrow> c \<noteq> CHR ''-'' \<and> c \<noteq> CHR ''+''"
  by (auto simp add: is_digit_def code_def)

lemma py_int_all_digits:
  assumes "ds \<noteq> []" and "\<forall>c \<in> set ds. is_digit c" and "length ds \<le> max_str_digits"
  shows "py_int ds = Some (int (digits_value 0 ds))"
proof -
  from assms obtain c cs where ds: "ds = c # cs" by (cases ds) auto
  with assms(2) have c: "is_digit c" and cs: "\<forall>x \<in> set cs. is_digit x" by simp_all
  from c ds have front: "dropWhile int_space ds = ds"
    by (simp add: is_digit_not_space)
  from assms have "is_digit (last ds)" by simp
  then have "dropWhile int_space (rev ds) = rev ds"
    using assms(1) by (cases ds rule: rev_cases) (simp_all add: is_digit_not_space)
  with front have t: "rev (dropWhile int_space (rev (dropWhile int_space ds))) = ds" by simp
  from assms(2) have "filter is_digit ds = ds" by simp
  with assms(3) have "\<not> length (filter is_digit ds) > max_str_digits" by simp
  then have u: "unsigned_int ds = Some (digits_value 0 ds)"
    using c cs by (simp add: ds unsigned_int_def scan_digits_all_digits digits_value_def)
  show ?thesis
    unfolding py_int_def Let_def t using is_digit_not_sign [OF c] u by (simp add: ds)
qed

lemma zero_pad_is_digit: "c \<in> set (zero_pad w (dec n)) \<Longrightarrow> is_digit c"
  using zero_pad_digits [of c w n] by (simp add: is_digit_def)

lemma py_int_zero_pad:
  assumes "w \<le> max_str_digits" and "length (dec n) \<le> max_str_digits"
  shows "py_int (zero_pad w (dec n)) = Some (int n)"
proof -
  have "zero_pad w (dec n) \<noteq> []" by (simp add: zero_pad_def dec_not_Nil)
  moreover from assms have "length (zero_pad w (dec n)) \<le> max_str_digits"
    by (simp add: zero_pad_def)
  ultimately show ?thesis
    by (simp add: py_int_all_digits zero_pad_is_digit digits_value_zero_pad)
qed

lemma py_int_format_text:
  "0 \<le> n \<Longrightarrow> n < 10000 \<Longrightarrow> w \<le> 4 \<Longrightarrow> py_int (format_text w n) = Some n"
proof -
  assume a: "0 \<le> n" "n < 10000" "w \<le> 4"
  then have "within_limit n" by (intro within_limit_small) simp
  with a have "length (dec (nat n)) \<le> max_str_digits" by (simp add: within_limit_def)
  with a show ?thesis
    by (simp add: format_text_def py_int_zero_pad max_str_digits_def)
qed

lemma length_format_text:
  "0 \<le> n \<Longrightarrow> n < 10 ^ w \<Longrightarrow> 0 < w \<Longrightarrow> length (format_text w n) = w"
proof -
  assume a: "0 \<le> n" "n < 10 ^ w" "0 < w"
  then have "nat n < 10 ^ w" by (simp add: nat_less_iff)
  with a have "length (dec (nat n)) \<le> w" by (simp add: length_dec)
  with a show ?thesis by (simp add: format_text_def zero_pad_def)
qed

text \<open>
  With the time at most 9999 as well, the frame has its 15 characters and the three
  fields, cut out at their fixed positions and read by \<open>int\<close>, are the three values.
\<close>

lemma move_frame_round_trip:
  assumes "0 \<le> i" "i \<le> 999" "500 \<le> p" "p \<le> 2500" "1 \<le> t" "t \<le> 9999"
  shows "\<exists>frame. move_frame i p t = Inr frame \<and> length frame = 15
    \<and> py_int (take 3 (drop 1 frame)) = Some i
    \<and> py_int (take 4 (drop 5 frame)) = Some p
    \<and> py_int (take 4 (drop 10 frame)) = Some t"
proof -
  from assms have "within_limit (min 999 i)" "within_limit (max 1 t)"
    by (simp_all add: within_limit_small)
  then have m: "move_frame i p t = Inr (frame_text i p t)"
    by (simp add: move_frame_eq)
  have f: "frame_text i p t =
      ''#'' @ format_text 3 i @ ''P'' @ format_text 4 p @ ''T'' @ format_text 4 t @ ''!''"
    using assms by (simp add: frame_text_def PULSE_MIN_US_def PULSE_MAX_US_def)
  have li: "length (format_text 3 i) = 3" using assms by (simp add: length_format_text)
  have lp: "length (format_text 4 p) = 4" using assms by (simp add: length_format_text)
  have lt: "length (format_text 4 t) = 4" using assms by (simp add: length_format_text)
  have vi: "py_int (format_text 3 i) = Some i" using assms by (simp add: py_int_format_text)
  have vp: "py_int (format_text 4 p) = Some p" using assms by (simp add: py_int_format_text)
  have vt: "py_int (format_text 4 t) = Some t" using assms by (simp add: py_int_format_text)
  show ?thesis
    unfolding m f using li lp lt vi vp vt by simp
qed

section \<open>The move frame\<close>

text \<open>
  Claim C1. For every id in [0,999], pulse in [500,2500] and duration at least 1, the frame
  of \<open>send_servo_move\<close> has exactly 15 characters, with the three numbers at fixed
  positions. The source's comment asks for a four-digit time field, and the id is bounded
  to keep its width, but the time has no upper bound: the input line \<open>0,1500,10000\<close>
  passes \<open>parse_segment\<close> and a frame of 16 characters is written to the port. For
  times up to 9999 the property holds, see \<open>move_frame_round_trip\<close>.
\<close>

theorem move_frame_time_overflow:
  "parse_segment 1000 ''0,1500,10000'' = Some (0, 1500, 10000)
   \<and> move_frame 0 1500 10000 = Inr ''#000P1500T10000!''
   \<and> map_sum id length (move_frame 0 1500 10000) = Inr 16
   \<and> process_command (init_state []) ''0,1500,10000'' =
       Inr \<lparr>default_time_ms = 1000,
            trace = [Write ''#000P1500T10000!'', Print ''Sent -> #000P1500T10000!''],
            rx = []\<rparr>"
  by (simp add: ev)

text \<open>
  Claim C2, as stated: for every integer triple \<open>send_servo_move\<close> bounds the values
  and never fails. It does fail: a time of \<open>10 ^ 4300\<close> is not bounded from above, has
  4301 digits, and the f-string raises \<open>ValueError\<close> before anything is written.
\<close>

theorem send_servo_move_huge_time:
  "send_servo_move (init_state []) 0 1500 (10 ^ 4300) = Inl ValueError"
proof -
  have "\<not> within_limit (10 ^ 4300)"
    by (rule not_within_limit_power) (simp add: max_str_digits_def)
  moreover have "max 1 ((10::int) ^ 4300) = 10 ^ 4300"
    by (rule max_absorb2) (rule one_le_power, simp)
  ultimately show ?thesis
    by (simp only: send_servo_move_eq if_False simp_thms)
qed

text \<open>
  Claim C2, amended. For every integer triple, \<open>send_servo_move\<close> bounds the values
  before it formats them: an id above 999 becomes 999, a pulse above 2500 becomes 2500 and
  one below 500 becomes 500, a time of 0 or less becomes 1; every other value is formatted
  as it is. When the bounded id and the bounded time are below \<open>10 ^ 4300\<close> in absolute
  value the call does not fail: the frame is written and returned. Otherwise it raises
  \<open>ValueError\<close> and nothing is written.
\<close>

theorem send_servo_move_bounds:
  "send_servo_move s servo_id pulse_us time_ms =
     (let i = (if servo_id > 999 then 999 else servo_id);
          p = (if pulse_us > 2500 then 2500 else if pulse_us < 500 then 500 else pulse_us);
          t = (if time_ms \<le> 0 then 1 else time_ms);
          frame = ''#'' @ format_text 3 i @ ''P'' @ format_text 4 p
                    @ ''T'' @ format_text 4 t @ ''!''
      in if \<bar>i\<bar> < 10 ^ max_str_digits \<and> \<bar>t\<bar> < 10 ^ max_str_digits
         then Inr (s\<lparr>trace := trace s @ [Write frame]\<rparr>, frame)
         else Inl ValueError)"
proof -
  have i: "min 999 servo_id = (if servo_id > 999 then 999 else servo_id)"
    and p: "max PULSE_MIN_US (min PULSE_MAX_US pulse_us) =
      (if pulse_us > 2500 then 2500 else if pulse_us < 500 then 500 else pulse_us)"
    and t: "max 1 time_ms = (if time_ms \<le> 0 then 1 else time_ms)"
    by (simp_all add: PULSE_MIN_US_def PULSE_MAX_US_def max_def min_def)
  show ?thesis
    unfolding send_servo_move_eq frame_text_def within_limit_iff i p t
    by (simp add: emit_def Let_def)
qed

theorem send_servo_move_bounds_witness:
  "send_servo_move (init_state []) 1234 9999 0 =
     Inr (\<lparr>default_time_ms = 1000, trace = [Write ''#999P2500T0001!''], rx = []\<rparr>,
          ''#999P2500T0001!'')
   \<and> send_servo_move (init_state []) (-5) 20 (-3) =
     Inr (\<lparr>default_time_ms = 1000, trace = [Write ''#-05P0500T0001!''], rx = []\<rparr>,
          ''#-05P0500T0001!'')"
proof -
  have small: "\<bar>999::int\<bar> < 10 ^ max_str_digits" "\<bar>1::int\<bar> < 10 ^ max_str_digits"
    "\<bar>- 5::int\<bar> < 10 ^ max_str_digits"
    using within_limit_small [of 999] within_limit_small [of 1] within_limit_small [of "- 5"]
    by (simp_all add: within_limit_iff)
  show ?thesis
    using send_servo_move_bounds [of "init_state []" 1234 9999 0]
      send_servo_move_bounds [of "init_state []" "-5" 20 "-3"] small
    by (simp add: init_state_def format_text_def zero_pad_def dec_num digit_char_simps
        replicate_num Let_def)
qed

text \<open>
  Claim C8. End to end, the line \<open>5,9999,1\<close> passes \<open>parse_segment\<close> with its pulse of
  9999 untouched, \<open>send_servo_move\<close> bounds the pulse to 2500, and the frame written to the
  port is \<open>#005P2500T0001!\<close>. In general a pulse above 2500 passes \<open>parse_segment\<close>
  as it is whenever the rest of the segment is valid, and only \<open>send_servo_move\<close> brings
  it down: the move it writes is the one of pulse 2500.
\<close>

theorem end_to_end_pulse_clamp:
  "parse_segment 1000 ''5,9999,1'' = Some (5, 9999, 1)
   \<and> process_command (init_state []) ''5,9999,1'' =
       Inr \<lparr>default_time_ms = 1000,
            trace = [Write ''#005P2500T0001!'', Print ''Sent -> #005P2500T0001!''],
            rx = []\<rparr>
   \<and> (2 \<le> length (split CHR '','' segment)
        \<and> py_int (split CHR '','' segment ! 0) = Some i
        \<and> py_int (split CHR '','' segment ! 1) = Some p
        \<and> (if 2 < length (split CHR '','' segment)
           then py_int (split CHR '','' segment ! 2) = Some t else t = dflt)
        \<and> 0 \<le> i \<and> i \<le> 999 \<and> 2500 < p \<and> 0 < t
        \<longrightarrow> parse_segment dflt segment = Some (i, p, t))
   \<and> (2500 < p \<longrightarrow>
        move_frame i p t = move_frame i 2500 t
        \<and> send_servo_move s i p t = send_servo_move s i 2500 t)"
proof (intro conjI impI)
  show "parse_segment 1000 ''5,9999,1'' = Some (5, 9999, 1)"
    by (simp add: ev)
  show "process_command (init_state []) ''5,9999,1'' =
       Inr \<lparr>default_time_ms = 1000,
            trace = [Write ''#005P2500T0001!'', Print ''Sent -> #005P2500T0001!''],
            rx = []\<rparr>"
    by (simp add: ev)
next
  assume "2 \<le> length (split CHR '','' segment)
        \<and> py_int (split CHR '','' segment ! 0) = Some i
        \<and> py_int (split CHR '','' segment ! 1) = Some p
        \<and> (if 2 < length (split CHR '','' segment)
           then py_int (split CHR '','' segment ! 2) = Some t else t = dflt)
        \<and> 0 \<le> i \<and> i \<le> 999 \<and> 2500 < p \<and> 0 < t"
  then show "parse_segment dflt segment = Some (i, p, t)"
    by (auto simp add: parse_segment_def Let_def split: if_splits)
next
  assume "2500 < p"
  then have "frame_text i p t = frame_text i 2500 t"
    by (simp add: frame_text_def PULSE_MIN_US_def PULSE_MAX_US_def)
  then show "move_frame i p t = move_frame i 2500 t"
    and "send_servo_move s i p t = send_servo_move s i 2500 t"
    by (simp_all add: move_frame_eq send_servo_move_eq)
qed

theorem end_to_end_pulse_clamp_witness:
  "parse_segment 1000 ''7,3000,20'' = Some (7, 3000, 20)
   \<and> parse_segment 1000 ''7,3000'' = Some (7, 3000, 1000)
   \<and> move_frame 7 3000 20 = move_frame 7 2500 20
   \<and> move_frame 7 3000 20 = Inr ''#007P2500T0020!''
   \<and> send_servo_move (init_state []) 7 3000 20 = send_servo_move (init_state []) 7 2500 20"
proof -
  have f: "split CHR '','' ''7,3000,20'' = [''7'', ''3000'', ''20'']"
    "split CHR '','' ''7,3000'' = [''7'', ''3000'']"
    by simp_all
  have v: "py_int ''7'' = Some 7" "py_int ''3000'' = Some 3000" "py_int ''20'' = Some 20"
    by (simp_all add: ev)
  have m: "move_frame 7 2500 20 = Inr ''#007P2500T0020!''"
    by (simp add: ev)
  show ?thesis
    using end_to_end_pulse_clamp [of "''7,3000,20''" 7 3000 20 1000 "init_state []"]
      end_to_end_pulse_clamp [of "''7,3000''" 7 3000 1000 1000 "init_state []"]
    by (simp add: f v m)
qed

section \<open>Passthrough\<close>

text \<open>
  Claim C10. When the check of the wrapper fails, \<open>send_passthrough\<close> returns its message
  at once: nothing is written, there is no settle delay and no read, and the state is the
  one it was given.
\<close>

theorem send_passthrough_invalid:
  "\<not> (startswith (upper command) ''C#'' \<and> endswith command ''!'') \<Longrightarrow>
   send_passthrough s command =
     Inr (s, ''Invalid C# command (must start with C# and end with !)'')"
  by (simp add: send_passthrough_def passthrough_payload_def)

theorem send_passthrough_invalid_witness:
  "\<not> (startswith (upper ''X#000!'') ''C#'' \<and> endswith ''X#000!'' ''!'')
   \<and> send_passthrough (init_state [''late'']) ''X#000!'' =
       Inr (init_state [''late''], ''Invalid C# command (must start with C# and end with !)'')
   \<and> send_passthrough (init_state [''late'']) ''C#000'' =
       Inr (init_state [''late''], ''Invalid C# command (must start with C# and end with !)'')"
  using send_passthrough_invalid [of "''X#000!''" "init_state [''late'']"]
    send_passthrough_invalid [of "''C#000''" "init_state [''late'']"]
  by (simp add: startswith_def endswith_def upper_def upper_char_def code_def)

section \<open>Lines\<close>

text \<open>
  Claim C5. In the segment branch the line is split at \<open>;\<close>, each segment is trimmed, the
  empty ones are dropped, and every remaining segment gives its own outcome, a move or a
  skip diagnostic, in the order of the input; a malformed segment does not stop the ones
  after it. The branch fails only when an accepted segment has a time that cannot be
  formatted, which takes a default time beyond the limit on digits; no state the program
  reaches has one (\<open>init_state_within_limit\<close>, \<open>process_command_within_limit\<close>), and
  from a state within the limit the branch never fails.
\<close>

theorem segments_branch_outcomes:
  "segments_branch s line =
     (if list_all (segment_sendable (default_time_ms s))
           (filter (\<lambda>seg. seg \<noteq> []) (map strip (split CHR '';'' line)))
      then Inr (s\<lparr>trace := trace s @ concat (map (segment_outcome (default_time_ms s))
             (filter (\<lambda>seg. seg \<noteq> []) (map strip (split CHR '';'' line))))\<rparr>)
      else Inl ValueError)
   \<and> (within_limit (default_time_ms s) \<longrightarrow>
        segments_branch s line =
          Inr (s\<lparr>trace := trace s @ concat (map (segment_outcome (default_time_ms s))
                 (filter (\<lambda>seg. seg \<noteq> []) (map strip (split CHR '';'' line))))\<rparr>))"
  by (simp add: segments_branch_def process_segments_trace list_all_iff
      segment_sendable_default)

theorem segments_branch_outcomes_witness:
  "within_limit (default_time_ms (init_state []))
   \<and> segments_branch (init_state []) ''0,bad;1,2000'' =
     Inr \<lparr>default_time_ms = 1000,
          trace = [Print ''Skip invalid segment: 0,bad'',
                   Write ''#001P2000T1000!'', Print ''Sent -> #001P2000T1000!''],
          rx = []\<rparr>
   \<and> segments_branch (init_state []) ''0,1500;1,2000'' =
     Inr \<lparr>default_time_ms = 1000,
          trace = [Write ''#000P1500T1000!'', Print ''Sent -> #000P1500T1000!'',
                   Write ''#001P2000T1000!'', Print ''Sent -> #001P2000T1000!''],
          rx = []\<rparr>"
proof -
  have w: "within_limit (default_time_ms (init_state []))"
    by (rule init_state_within_limit)
  have s: "split CHR '';'' ''0,bad;1,2000'' = [''0,bad'', ''1,2000'']"
    "split CHR '';'' ''0,1500;1,2000'' = [''0,1500'', ''1,2000'']"
    "strip ''0,bad'' = ''0,bad''" "strip ''1,2000'' = ''1,2000''" "strip ''0,1500'' = ''0,1500''"
    by (simp_all add: strip_def isspace_def code_def)
  have o: "segment_outcome 1000 ''0,bad'' = [Print ''Skip invalid segment: 0,bad'']"
    "segment_outcome 1000 ''1,2000'' =
       [Write ''#001P2000T1000!'', Print ''Sent -> #001P2000T1000!'']"
    "segment_outcome 1000 ''0,1500'' =
       [Write ''#000P1500T1000!'', Print ''Sent -> #000P1500T1000!'']"
    by (simp_all add: segment_outcome_def ev)
  note a = segments_branch_outcomes [of "init_state []" "''0,bad;1,2000''",
      THEN conjunct2, rule_format, OF w]
  note b = segments_branch_outcomes [of "init_state []" "''0,1500;1,2000''",
      THEN conjunct2, rule_format, OF w]
  show ?thesis
    using w a b by (simp add: s o init_state_def)
qed

text \<open>
  Claim C7. \<open>process_command\<close> trims the line and takes exactly one branch, in this
  order: a line that starts with \<open>C#\<close> in either case is a passthrough command; otherwise
  a line that starts with the lower-case \<open>ct\<close> is an attempt to set the default time;
  otherwise the line is split into move segments (an empty line has none).
\<close>

theorem process_command_branches:
  "process_command s line =
     (let l = strip line
      in if take 2 l = ''C#'' \<or> take 2 l = ''c#'' then passthrough_branch s l
         else if take 2 l = ''ct'' then ct_branch s l
         else segments_branch s l)"
proof (cases "strip line = []")
  case True
  then show ?thesis
    by (simp add: process_command_def Let_def segments_branch_Nil)
next
  case False
  have "process_command s line =
      (if startswith (upper (strip line)) ''C#'' then passthrough_branch s (strip line)
       else if startswith (strip line) ''ct'' then ct_branch s (strip line)
       else segments_branch s (strip line))"
    using False by (simp add: process_command_def Let_def)
  then show ?thesis
    by (simp only: startswith_upper_C_hash startswith_ct Let_def)
qed

theorem process_command_branches_witness:
  "process_command (init_state []) ''  C#000  '' = passthrough_branch (init_state []) ''C#000''
   \<and> process_command (init_state []) ''ct500'' = ct_branch (init_state []) ''ct500''
   \<and> process_command (init_state []) ''CT500'' = segments_branch (init_state []) ''CT500''
   \<and> process_command (init_state []) '' 0,1500 '' = segments_branch (init_state []) ''0,1500''
   \<and> process_command (init_state []) ''   '' = Inr (init_state [])"
  using process_command_branches [of "init_state []" "''  C#000  ''"]
    process_command_branches [of "init_state []" "''ct500''"]
    process_command_branches [of "init_state []" "''CT500''"]
    process_command_branches [of "init_state []" "'' 0,1500 ''"]
    process_command_branches [of "init_state []" "''   ''"]
  by (simp add: strip_def isspace_def code_def Let_def segments_branch_Nil)

section \<open>Segments\<close>

text \<open>
  Claim C3. \<open>parse_segment\<close> returns \<open>None\<close> when the segment has fewer than two
  comma-separated fields, when a field it uses is not an integer, or when the id is below 0
  or above 999, the pulse is 0 or less, or the time is 0 or less; otherwise it returns the
  id, the pulse and the time, the time being the third field when there is one and the
  default otherwise. Nothing is bounded at this stage.
\<close>

theorem parse_segment_result:
  "(parse_segment dflt segment = Some (i, p, t) \<longleftrightarrow>
      2 \<le> length (split CHR '','' segment)
      \<and> py_int (split CHR '','' segment ! 0) = Some i
      \<and> py_int (split CHR '','' segment ! 1) = Some p
      \<and> (if 2 < length (split CHR '','' segment)
         then py_int (split CHR '','' segment ! 2) = Some t else t = dflt)
      \<and> 0 \<le> i \<and> i \<le> 999 \<and> 0 < p \<and> 0 < t)
   \<and> (parse_segment dflt segment = None \<longleftrightarrow>
      length (split CHR '','' segment) < 2
      \<or> py_int (split CHR '','' segment ! 0) = None
      \<or> py_int (split CHR '','' segment ! 1) = None
      \<or> (2 < length (split CHR '','' segment) \<and> py_int (split CHR '','' segment ! 2) = None)
      \<or> (\<exists>i p t. py_int (split CHR '','' segment ! 0) = Some i
             \<and> py_int (split CHR '','' segment ! 1) = Some p
             \<and> (if 2 < length (split CHR '','' segment)
                then py_int (split CHR '','' segment ! 2) = Some t else t = dflt)
             \<and> (i < 0 \<or> 999 < i \<or> p \<le> 0 \<or> t \<le> 0)))"
  by (auto simp add: parse_segment_def Let_def split: option.splits if_splits)

theorem parse_segment_result_witness:
  "parse_segment 1000 ''0,1640,1000'' = Some (0, 1640, 1000)
   \<and> parse_segment 1000 ''0,1640'' = Some (0, 1640, 1000)
   \<and> parse_segment 1000 ''0,1640,0'' = None
   \<and> parse_segment 1000 ''0,bad'' = None
   \<and> parse_segment 1000 ''1000,1640'' = None
   \<and> parse_segment 1000 ''7'' = None"
  using parse_segment_result [of 1000 "''0,1640,1000''" 0 1640 1000]
    parse_segment_result [of 1000 "''0,1640''" 0 1640 1000]
    parse_segment_result [of 1000 "''0,1640,0''"]
    parse_segment_result [of 1000 "''0,bad''"]
    parse_segment_result [of 1000 "''1000,1640''"]
    parse_segment_result [of 1000 "''7''"]
  by (simp add: py_int_def unsigned_int_def int_space_def is_digit_def digit_val_def code_def
      max_str_digits_def)

text \<open>
  Claim C9. Fields after the third are ignored: when a segment has at least three fields
  and is accepted, the segment with any further text appended after a comma is accepted
  with the same id, pulse and time.
\<close>

theorem parse_segment_extra_fields:
  assumes "3 \<le> length (split CHR '','' segment)"
    and "parse_segment dflt segment = Some m"
  shows "parse_segment dflt (segment @ CHR '','' # extra) = Some m"
proof -
  let ?parts = "split CHR '','' segment"
  let ?parts' = "split CHR '','' (segment @ CHR '','' # extra)"
  have app: "?parts' = ?parts @ split CHR '','' extra"
    by (rule split_append)
  from assms(1) have n: "?parts' ! 0 = ?parts ! 0" "?parts' ! 1 = ?parts ! 1"
    "?parts' ! 2 = ?parts ! 2"
    by (auto simp add: app nth_append)
  from assms(1) have len: "\<not> length ?parts' < 2" "length ?parts' > 2"
    "\<not> length ?parts < 2" "length ?parts > 2"
    by (simp_all add: app)
  have "parse_segment dflt (segment @ CHR '','' # extra) = parse_segment dflt segment"
    unfolding parse_segment_def Let_def n using len by simp
  with assms(2) show ?thesis by simp
qed

theorem parse_segment_extra_fields_witness:
  "3 \<le> length (split CHR '','' ''0,1500,1000'')
   \<and> parse_segment 1000 ''0,1500,1000'' = Some (0, 1500, 1000)
   \<and> parse_segment 1000 ''0,1500,1000,junk'' = Some (0, 1500, 1000)
   \<and> parse_segment 1000 ''0,1500,1000,,x,-'' = Some (0, 1500, 1000)"
proof -
  have a: "3 \<le> length (split CHR '','' ''0,1500,1000'')" by simp
  have b: "parse_segment 1000 ''0,1500,1000'' = Some (0, 1500, 1000)" by (simp add: ev)
  show ?thesis
    using a b parse_segment_extra_fields [OF a b, of "''junk''"]
      parse_segment_extra_fields [OF a b, of "'',x,-''"]
    by simp
qed

section \<open>The passthrough wrapper\<close>

text \<open>
  Claim C4. The check in \<open>send_passthrough\<close> succeeds exactly when the command starts
  with \<open>C#\<close> in either case and ends with \<open>!\<close>; the payload is then the command
  without its first character, so it starts with \<open>#\<close> and ends with \<open>!\<close>, and it is
  what is written to the port (an ASCII payload is always written, followed by the settle
  delay). Any other command gets the error message.
\<close>

theorem passthrough_wrapper:
  "passthrough_payload command =
     (if (take 2 command = ''C#'' \<or> take 2 command = ''c#'')
         \<and> command \<noteq> [] \<and> last command = CHR ''!''
      then Inr (tl command)
      else Inl ''Invalid C# command (must start with C# and end with !)'')
   \<and> (passthrough_payload command = Inr payload \<longrightarrow>
        (command = CHR ''C'' # payload \<or> command = CHR ''c'' # payload)
        \<and> take 1 payload = ''#'' \<and> last payload = CHR ''!'')
   \<and> (passthrough_payload command = Inr payload \<and> (\<forall>c \<in> set payload. code c < 128) \<longrightarrow>
        (\<exists>s' r ys. send_passthrough s command = Inr (s', r)
           \<and> trace s' = trace s @ [Write payload, Sleep 50] @ ys))"
  using passthrough_payload_eq [of command] passthrough_payload_shape [of command payload]
    send_passthrough_writes [of command payload s]
  by blast

theorem passthrough_wrapper_witness:
  "passthrough_payload ''c#000prad1500!'' = Inr ''#000prad1500!''
   \<and> passthrough_payload ''X#000!'' = Inl ''Invalid C# command (must start with C# and end with !)''
   \<and> passthrough_payload ''C#000'' = Inl ''Invalid C# command (must start with C# and end with !)''
   \<and> (\<exists>s' r ys. send_passthrough (init_state []) ''c#000prad1500!'' = Inr (s', r)
           \<and> trace s' = [Write ''#000prad1500!'', Sleep 50] @ ys)"
  using passthrough_wrapper [of "''c#000prad1500!''" "''#000prad1500!''" "init_state []"]
    passthrough_wrapper [of "''X#000!''" "[]" "init_state []"]
    passthrough_wrapper [of "''C#000''" "[]" "init_state []"]
  by (simp add: code_def init_state_def)

section \<open>The default time\<close>

text \<open>
  Claim C6. The default time starts at 1000. A line \<open>ct...\<close> replaces it exactly when
  the rest of the line is an integer above 0, and reports the new value; otherwise the
  default stays as it was and a diagnostic is printed. A segment of two fields that is
  accepted takes the default current at that moment as its time.
\<close>

theorem default_time_update:
  "default_time_ms (init_state chunks) = 1000
   \<and> (take 2 (strip line) = ''ct'' \<longrightarrow>
        process_command s line =
          (case py_int (drop 2 (strip line)) of
             Some v \<Rightarrow>
               if 0 < v
               then Inr (s\<lparr>default_time_ms := v,
                          trace := trace s @ [Print (''Default time set to: '' @ int_text v @ '' ms'')]\<rparr>)
               else Inr (s\<lparr>trace := trace s @ [Print ''Invalid time value for ct command.'']\<rparr>)
           | None \<Rightarrow> Inr (s\<lparr>trace := trace s @ [Print ''Invalid time value for ct command.'']\<rparr>)))
   \<and> (length (split CHR '','' segment) = 2
        \<and> parse_segment (default_time_ms s) segment = Some (i, p, t) \<longrightarrow> t = default_time_ms s)"
proof (intro conjI impI)
  show "default_time_ms (init_state chunks) = 1000"
    by (simp add: init_state_def)
next
  assume "take 2 (strip line) = ''ct''"
  then have "process_command s line = ct_branch s (strip line)"
    by (rule process_command_ct)
  then show "process_command s line =
          (case py_int (drop 2 (strip line)) of
             Some v \<Rightarrow>
               if 0 < v
               then Inr (s\<lparr>default_time_ms := v,
                          trace := trace s @ [Print (''Default time set to: '' @ int_text v @ '' ms'')]\<rparr>)
               else Inr (s\<lparr>trace := trace s @ [Print ''Invalid time value for ct command.'']\<rparr>)
           | None \<Rightarrow> Inr (s\<lparr>trace := trace s @ [Print ''Invalid time value for ct command.'']\<rparr>))"
    by (simp add: ct_branch_eq)
next
  assume "length (split CHR '','' segment) = 2
        \<and> parse_segment (default_time_ms s) segment = Some (i, p, t)"
  then show "t = default_time_ms s"
    by (auto simp add: parse_segment_def Let_def split: option.splits if_splits)
qed

theorem default_time_update_witness:
  "default_time_ms (init_state []) = 1000
   \<and> process_command (init_state []) ''ct500'' =
       Inr \<lparr>default_time_ms = 500, trace = [Print ''Default time set to: 500 ms''], rx = []\<rparr>
   \<and> process_command (init_state []) ''ct-5'' =
       Inr \<lparr>default_time_ms = 1000, trace = [Print ''Invalid time value for ct command.''], rx = []\<rparr>
   \<and> process_command (init_state []) ''ct0'' =
       Inr \<lparr>default_time_ms = 1000, trace = [Print ''Invalid time value for ct command.''], rx = []\<rparr>
   \<and> process_command (init_state []) ''ctx'' =
       Inr \<lparr>default_time_ms = 1000, trace = [Print ''Invalid time value for ct command.''], rx = []\<rparr>
   \<and> parse_segment 500 ''2,1800'' = Some (2, 1800, 500)
   \<and> process_command \<lparr>default_time_ms = 500, trace = [], rx = []\<rparr> ''2,1800'' =
       Inr \<lparr>default_time_ms = 500,
            trace = [Write ''#002P1800T0500!'', Print ''Sent -> #002P1800T0500!''], rx = []\<rparr>"
proof -
  have seg: "length (split CHR '','' ''2,1800'') = 2" by simp
  have p: "parse_segment 500 ''2,1800'' = Some (2, 1800, 500)" by (simp add: ev)
  have run: "process_command \<lparr>default_time_ms = 500, trace = [], rx = []\<rparr> ''2,1800'' =
       Inr \<lparr>default_time_ms = 500,
            trace = [Write ''#002P1800T0500!'', Print ''Sent -> #002P1800T0500!''], rx = []\<rparr>"
    by (simp add: ev)
  have s: "strip ''ct500'' = ''ct500''" "strip ''ct-5'' = ''ct-5''" "strip ''ct0'' = ''ct0''"
    "strip ''ctx'' = ''ctx''"
    by (simp_all add: strip_def isspace_def code_def)
  have v: "py_int ''500'' = Some 500" "py_int ''-5'' = Some (-5)" "py_int ''0'' = Some 0"
    "py_int ''x'' = None" "int_text 500 = ''500''"
    by (simp_all add: ev)
  show ?thesis
    using default_time_update [of "[]" "''ct500''" "init_state []" "''2,1800''" 2 1800 500]
      default_time_update [of "[]" "''ct-5''" "init_state []" "''2,1800''" 2 1800 500]
      default_time_update [of "[]" "''ct0''" "init_state []" "''2,1800''" 2 1800 500]
      default_time_update [of "[]" "''ctx''" "init_state []" "''2,1800''" 2 1800 500]
      default_time_update [of "[]" "''ct500''" "\<lparr>default_time_ms = 500, trace = [], rx = []\<rparr>"
        "''2,1800''" 2 1800 500]
      seg p run
    by (simp add: s v init_state_def)
qed

end
